theory Spec2Isabelle
  imports Main "HOL-Library.Sublist" "HOL-Library.Char_ord"
begin

section \<open>The shared state and its values\<close>

text \<open>
  The tools of \<^verbatim>\<open>workflow_agents/agent.py\<close> read and write
  \<^verbatim>\<open>tool_context.state\<close>, a dictionary from field names to Python values.
  The values the tools distinguish are \<^verbatim>\<open>None\<close>, a string and a list; a list may
  hold any of these again. A Python string is modelled as a \<open>string\<close>, so a character
  outside ASCII stands as the bytes of its UTF-8 encoding.
\<close>

datatype pyval = PyNone | PyStr string | PyList "pyval list"

type_synonym state = "string \<rightharpoonup> pyval"

text \<open>The exceptions the tools can raise.\<close>

datatype py_error = TypeError | IndexError | OSError

text \<open>The dictionary a tool returns, in insertion order.\<close>

type_synonym tool_result = "(string \<times> string) list"

text \<open>\<^verbatim>\<open>state.get(key, default)\<close>: the default stands in for an absent key only.\<close>

definition state_get :: "state \<Rightarrow> string \<Rightarrow> pyval \<Rightarrow> pyval" where
  "state_get st k d = (case st k of None \<Rightarrow> d | Some v \<Rightarrow> v)"

section \<open>String helpers of the Python library\<close>

text \<open>\<^verbatim>\<open>sep.join(items)\<close> on strings.\<close>

fun str_join :: "string \<Rightarrow> string list \<Rightarrow> string" where
  "str_join sep [] = []"
| "str_join sep [v] = v"
| "str_join sep (v # w # ws) = v @ sep @ str_join sep (w # ws)"

text \<open>
  \<^verbatim>\<open>str.join\<close> raises \<^verbatim>\<open>TypeError\<close> at an item that is not a string;
  \<open>str_items\<close> is that check, returning the items as strings.
\<close>

fun str_items :: "pyval list \<Rightarrow> py_error + string list" where
  "str_items [] = Inr []"
| "str_items (PyStr v # xs) =
     (case str_items xs of Inl e \<Rightarrow> Inl e | Inr vs \<Rightarrow> Inr (v # vs))"
| "str_items (_ # xs) = Inl TypeError"

definition py_join :: "string \<Rightarrow> pyval list \<Rightarrow> py_error + string" where
  "py_join sep xs = (case str_items xs of Inl e \<Rightarrow> Inl e | Inr vs \<Rightarrow> Inr (str_join sep vs))"

section \<open>The state tools\<close>

definition newline :: string where
  "newline = [CHR 0x0A]"

text \<open>The text between the old and the new content: \<^verbatim>\<open>"\n\n---\n"\<close>.\<close>

definition separator :: string where
  "separator = [CHR 0x0A, CHR 0x0A, CHR ''-'', CHR ''-'', CHR ''-'', CHR 0x0A]"

definition success :: tool_result where
  "success = [(''status'', ''success'')]"

text \<open>
  \<^verbatim>\<open>update_research_data(tool_context, field, new_info)\<close>. The inner case is the
  source's reading of the field: \<^verbatim>\<open>state.get(field, "")\<close>, then \<^verbatim>\<open>None\<close> replaced by
  the empty string, then a list joined by newlines (which raises on a list holding
  anything but strings). The outer case is the formatted string written back under
  \<open>field\<close> and the dictionary returned. The call to the logger is left out.
\<close>

definition update_research_data ::
  "state \<Rightarrow> string \<Rightarrow> string \<Rightarrow> py_error + state \<times> tool_result" where
  "update_research_data st field new_info =
     (case (case state_get st field (PyStr '''') of
              PyNone \<Rightarrow> Inr ''''
            | PyList xs \<Rightarrow> py_join newline xs
            | PyStr v \<Rightarrow> Inr v) of
        Inl e \<Rightarrow> Inl e
      | Inr current_data \<Rightarrow>
          Inr (st(field \<mapsto> PyStr (current_data @ separator @ new_info)), success))"

text \<open>
  \<^verbatim>\<open>set_state_value(tool_context, field, value)\<close>: a plain assignment, which cannot
  raise.
\<close>

definition set_state_value :: "state \<Rightarrow> string \<Rightarrow> string \<Rightarrow> state \<times> tool_result" where
  "set_state_value st field v = (st(field \<mapsto> PyStr v), success)"

text \<open>
  A run of appends to one field, in call order; it stops at the first call that raises.
\<close>

fun append_all :: "state \<Rightarrow> string \<Rightarrow> string list \<Rightarrow> py_error + state" where
  "append_all st field [] = Inr st"
| "append_all st field (t # ts) =
     (case update_research_data st field t of
        Inl e \<Rightarrow> Inl e
      | Inr (st', _) \<Rightarrow> append_all st' field ts)"

text \<open>
  The normal form of a field's entry in the specification's words: the empty string for
  an absent field or \<^verbatim>\<open>None\<close>, a string itself, a list of strings joined by newlines.
  A list holding anything else has none. This definition is the specification's side
  of the comparison; \<open>update_research_data\<close> above does not use it.
\<close>

fun spec_normal_form :: "pyval option \<Rightarrow> string option" where
  "spec_normal_form None = Some ''''"
| "spec_normal_form (Some PyNone) = Some ''''"
| "spec_normal_form (Some (PyStr v)) = Some v"
| "spec_normal_form (Some (PyList xs)) =
     (case str_items xs of Inl _ \<Rightarrow> None | Inr vs \<Rightarrow> Some (str_join newline vs))"

section \<open>Writing the verdict file\<close>

text \<open>The character class \<^verbatim>\<open>[a-zA-Z0-9]\<close>.\<close>

definition is_alnum :: "char \<Rightarrow> bool" where
  "is_alnum c \<longleftrightarrow>
     (CHR ''a'' \<le> c \<and> c \<le> CHR ''z'') \<or> (CHR ''A'' \<le> c \<and> c \<le> CHR ''Z'')
     \<or> (CHR ''0'' \<le> c \<and> c \<le> CHR ''9'')"

definition is_underscore :: "char \<Rightarrow> bool" where
  "is_underscore c \<longleftrightarrow> c = CHR ''_''"

text \<open>\<^verbatim>\<open>re.sub(r'[^a-zA-Z0-9]', '_', topic)\<close>: every other character becomes an underscore.\<close>

definition sub_non_alnum :: "string \<Rightarrow> string" where
  "sub_non_alnum s = map (\<lambda>c. if is_alnum c then c else CHR ''_'') s"

text \<open>
  \<^verbatim>\<open>re.sub(r'_+', '_', s)\<close>: scanning from the left, the longest run of underscores at
  the current position is replaced by one underscore and the scan goes on behind it.
\<close>

function sub_underscores :: "string \<Rightarrow> string" where
  "sub_underscores [] = []"
| "sub_underscores (c # cs) =
     (if is_underscore c then CHR ''_'' # sub_underscores (dropWhile is_underscore cs)
      else c # sub_underscores cs)"
  by pat_completeness auto
termination
  by (relation "measure length") (auto simp: length_dropWhile_le less_Suc_eq_le)

text \<open>\<^verbatim>\<open>s.strip('_')\<close>: the underscores at both ends are removed.\<close>

definition strip_underscores :: "string \<Rightarrow> string" where
  "strip_underscores s = rev (dropWhile is_underscore (rev (dropWhile is_underscore s)))"

text \<open>
  The right half of the strip, \<^verbatim>\<open>s.rstrip('_')\<close>; \<open>strip_underscores\<close> is the
  left half followed by it.
\<close>

definition rstrip :: "string \<Rightarrow> string" where
  "rstrip s = rev (dropWhile is_underscore (rev s))"

text \<open>\<^verbatim>\<open>os.path.join(a, b)\<close> as \<^verbatim>\<open>posixpath\<close> computes it.\<close>

definition path_join :: "string \<Rightarrow> string \<Rightarrow> string" where
  "path_join a b =
     (if b \<noteq> [] \<and> hd b = CHR ''/'' then b
      else if a = [] \<or> last a = CHR ''/'' then a @ b
      else a @ ''/'' @ b)"

text \<open>The two substitutions and the strip that turn the topic into \<^verbatim>\<open>clean_name\<close>.\<close>

definition clean_name :: "string \<Rightarrow> string" where
  "clean_name topic = strip_underscores (sub_underscores (sub_non_alnum topic))"

text \<open>
  The topic \<open>write_verdict_file\<close> reads: the entry of \<^verbatim>\<open>PROMPT\<close>, by default
  \<^verbatim>\<open>"unknown_subject"\<close>, and of a list its last element (\<^verbatim>\<open>topic[-1]\<close> raises
  \<^verbatim>\<open>IndexError\<close> on the empty list).
\<close>

definition read_topic :: "state \<Rightarrow> py_error + pyval" where
  "read_topic st =
     (case state_get st ''PROMPT'' (PyStr ''unknown_subject'') of
        PyList xs \<Rightarrow> (if xs = [] then Inl IndexError else Inr (last xs))
      | v \<Rightarrow> Inr v)"

text \<open>The files written, by path.\<close>

type_synonym files = "string \<rightharpoonup> string"

text \<open>
  \<^verbatim>\<open>write_verdict_file(tool_context, content)\<close>. \<^verbatim>\<open>re.sub\<close> raises \<^verbatim>\<open>TypeError\<close>
  on a topic that is not a string. The directory is created if missing and the file
  is opened for writing, so an earlier file of the same path is replaced.
  \<^verbatim>\<open>open\<close> raises \<^verbatim>\<open>OSError\<close> (file name too long) when the file name is longer than
  the file system allows; that limit is no constant of the source and is the parameter
  \<open>name_max\<close> (255 bytes on the usual file systems; the name is ASCII, one byte a
  character). Failures that depend on the machine alone and not on the arguments
  (permissions, a full disk) are left out.
\<close>

definition write_verdict_file ::
  "nat \<Rightarrow> state \<Rightarrow> files \<Rightarrow> string \<Rightarrow> py_error + files \<times> tool_result" where
  "write_verdict_file name_max st fs content =
     (case read_topic st of
        Inl e \<Rightarrow> Inl e
      | Inr (PyStr topic) \<Rightarrow>
          (let filename = clean_name topic @ ''.txt'';
               directory = ''court_records'';
               target_path = path_join directory filename
           in if length filename \<le> name_max
              then Inr (fs(target_path \<mapsto> content),
                        [(''status'', ''success''), (''file_path'', target_path)])
              else Inl OSError)
      | Inr _ \<Rightarrow> Inl TypeError)"

text \<open>
  The file name in the specification's words: the maximal runs of alphanumeric
  characters of the topic, in order, with one underscore between neighbours.
  \<open>alnum_runs cur s\<close> collects the runs of \<open>s\<close>, \<open>cur\<close> being the run read so far.
\<close>

fun alnum_runs :: "string \<Rightarrow> string \<Rightarrow> string list" where
  "alnum_runs cur [] = (if cur = [] then [] else [cur])"
| "alnum_runs cur (c # cs) =
     (if is_alnum c then alnum_runs (cur @ [c]) cs
      else if cur = [] then alnum_runs [] cs
      else cur # alnum_runs [] cs)"

definition spec_clean_name :: "string \<Rightarrow> string" where
  "spec_clean_name topic = str_join ''_'' (alnum_runs [] topic)"

section \<open>The workflow tree\<close>

text \<open>
  The agents are built from the classes of the agent library. An \<open>Agent\<close> is kept as its
  name and the tools it may call; its model, description and instruction text are
  opaque to the composition. A composite is its name and its \<^verbatim>\<open>sub_agents\<close> in order,
  a loop also its \<^verbatim>\<open>max_iterations\<close>.
\<close>

datatype tool = WikiTool | UpdateResearchData | SetStateValue | WriteVerdictFile | ExitLoop

datatype agent =
    Agent string "tool list"
  | SequentialAgent string "agent list"
  | ParallelAgent string "agent list"
  | LoopAgent string "agent list" nat

fun sub_agents :: "agent \<Rightarrow> agent list" where
  "sub_agents (Agent _ _) = []"
| "sub_agents (SequentialAgent _ as) = as"
| "sub_agents (ParallelAgent _ as) = as"
| "sub_agents (LoopAgent _ as _) = as"

fun tools :: "agent \<Rightarrow> tool list" where
  "tools (Agent _ ts) = ts"
| "tools _ = []"


definition admirer_agent :: agent where
  "admirer_agent = Agent ''admirer_agent'' [WikiTool, UpdateResearchData]"

definition critic_agent :: agent where
  "critic_agent = Agent ''critic_agent'' [WikiTool, UpdateResearchData]"

definition judge_agent :: agent where
  "judge_agent = Agent ''judge_agent'' [UpdateResearchData, ExitLoop]"

definition verdict_writer :: agent where
  "verdict_writer = Agent ''verdict_writer'' [WriteVerdictFile]"

definition investigation_team :: agent where
  "investigation_team = ParallelAgent ''investigation_team'' [admirer_agent, critic_agent]"

definition trial_loop :: agent where
  "trial_loop = LoopAgent ''trial_loop'' [investigation_team, judge_agent] 3"

definition inquiry_agent :: agent where
  "inquiry_agent = Agent ''inquiry_agent'' [SetStateValue]"

definition root_agent :: agent where
  "root_agent =
     SequentialAgent ''historical_court_system'' [inquiry_agent, trial_loop, verdict_writer]"

section \<open>The bounded loop\<close>






section \<open>Properties of the state tools\<close>

lemma str_items_map_PyStr: "str_items (map PyStr l) = Inr l"
  by (induction l) simp_all

lemma py_join_strings: "py_join sep (map PyStr l) = Inr (str_join sep l)"
  by (simp add: py_join_def str_items_map_PyStr)

text \<open>
  C3. Reading the field during an append does not fail: where the field is absent or
  holds \<^verbatim>\<open>None\<close>, the current text is taken to be empty, the call returns
  \<^verbatim>\<open>{"status": "success"}\<close>, and the field then holds the separator followed by the
  new text.
\<close>

theorem update_research_data_absent:
  assumes "st field = None \<or> st field = Some PyNone"
  shows "update_research_data st field new_info =
           Inr (st(field \<mapsto> PyStr ('''' @ separator @ new_info)), [(''status'', ''success'')])"
  using assms by (auto simp: update_research_data_def state_get_def success_def)

theorem update_research_data_absent_witness:
  "(Map.empty :: state) ''pos_data'' = None
   \<and> update_research_data Map.empty ''pos_data'' ''won'' =
       Inr ([''pos_data'' \<mapsto> PyStr (separator @ ''won'')], [(''status'', ''success'')])
   \<and> update_research_data [''pos_data'' \<mapsto> PyNone] ''pos_data'' ''won'' =
       Inr ([''pos_data'' \<mapsto> PyStr (separator @ ''won'')], [(''status'', ''success'')])"
  using update_research_data_absent [of Map.empty "''pos_data''" "''won''"]
    update_research_data_absent [of "[''pos_data'' \<mapsto> PyNone]" "''pos_data''" "''won''"]
  by simp

text \<open>
  C4. A field holding a list of strings is first joined by newlines into one string;
  what is stored is that string, the separator and the new text, as a string and not
  as a list.
\<close>

theorem update_research_data_list:
  assumes "st field = Some (PyList (map PyStr l))"
  shows "update_research_data st field t =
           Inr (st(field \<mapsto> PyStr (str_join newline l @ separator @ t)), success)"
  using assms by (simp add: update_research_data_def state_get_def py_join_strings)

theorem update_research_data_list_witness:
  "update_research_data [''neg_data'' \<mapsto> PyList [PyStr ''a'', PyStr ''b'']] ''neg_data'' ''c'' =
     Inr ([''neg_data'' \<mapsto> PyStr (''a'' @ newline @ ''b'' @ separator @ ''c'')], success)"
  using update_research_data_list
    [of "[''neg_data'' \<mapsto> PyList [PyStr ''a'', PyStr ''b'']]" "''neg_data''" "[''a'', ''b'']" "''c''"]
  by simp

text \<open>
  C6. After \<open>set_state_value\<close> the field holds exactly the given text, whatever the
  state held before: the result at the field is the same from any two prior states.
\<close>

theorem set_state_value_overwrites:
  "fst (set_state_value st field v) field = Some (PyStr v)
   \<and> fst (set_state_value st field v) field = fst (set_state_value st' field v) field
   \<and> snd (set_state_value st field v) = [(''status'', ''success'')]"
  by (simp add: set_state_value_def success_def)

text \<open>
  C9. Frame property: a call of either state tool that returns leaves every key other
  than its \<open>field\<close> argument with the entry it had, present or absent.
\<close>

theorem state_tools_frame:
  assumes "k \<noteq> field"
  shows "(update_research_data st field t = Inr (st', r) \<longrightarrow> st' k = st k)
         \<and> fst (set_state_value st field v) k = st k"
  using assms
  by (auto simp: update_research_data_def set_state_value_def split: sum.splits)

theorem state_tools_frame_witness:
  "''neg_data'' \<noteq> ''pos_data''
   \<and> update_research_data [''neg_data'' \<mapsto> PyStr ''n''] ''pos_data'' ''p'' =
       Inr ([''neg_data'' \<mapsto> PyStr ''n'', ''pos_data'' \<mapsto> PyStr (separator @ ''p'')], success)
   \<and> [''neg_data'' \<mapsto> PyStr ''n'', ''pos_data'' \<mapsto> PyStr (separator @ ''p'')] ''neg_data''
       = [''neg_data'' \<mapsto> PyStr ''n''] ''neg_data''
   \<and> fst (set_state_value [''neg_data'' \<mapsto> PyStr ''n''] ''pos_data'' ''p'') ''neg_data''
       = [''neg_data'' \<mapsto> PyStr ''n''] ''neg_data''"
proof -
  have ne: "''neg_data'' \<noteq> ''pos_data''" by simp
  have run: "update_research_data [''neg_data'' \<mapsto> PyStr ''n''] ''pos_data'' ''p'' =
       Inr ([''neg_data'' \<mapsto> PyStr ''n'', ''pos_data'' \<mapsto> PyStr (separator @ ''p'')], success)"
    by (simp add: update_research_data_def state_get_def)
  from state_tools_frame [OF ne, of "[''neg_data'' \<mapsto> PyStr ''n'']" "''p''"
      "[''neg_data'' \<mapsto> PyStr ''n'', ''pos_data'' \<mapsto> PyStr (separator @ ''p'')]" success "''p''"]
  show ?thesis using ne run by simp
qed

lemma update_research_data_normal:
  assumes "spec_normal_form (st field) = Some p"
  shows "update_research_data st field t = Inr (st(field \<mapsto> PyStr (p @ separator @ t)), success)"
proof (cases "st field")
  case None
  with assms show ?thesis by (simp add: update_research_data_def state_get_def)
next
  case (Some v)
  with assms show ?thesis
    by (cases v) (simp_all add: update_research_data_def state_get_def py_join_def split: sum.splits)
qed

lemma append_all_cons:
  assumes "spec_normal_form (st field) = Some p"
  shows "append_all st field (t # ts) =
           Inr (st(field \<mapsto> PyStr (p @ concat (map (\<lambda>u. separator @ u) (t # ts)))))"
  using assms
proof (induction ts arbitrary: st p t)
  case Nil
  then show ?case using update_research_data_normal [of st field p t] by (simp add: fun_eq_iff)
next
  case (Cons u us)
  let ?st = "st(field \<mapsto> PyStr (p @ separator @ t))"
  have nf: "spec_normal_form (?st field) = Some (p @ separator @ t)" by simp
  have "append_all st field (t # u # us) = append_all ?st field (u # us)"
    using Cons.prems update_research_data_normal [of st field p t] by simp
  also have "\<dots> = Inr (?st(field \<mapsto> PyStr ((p @ separator @ t) @ concat (map (\<lambda>u. separator @ u) (u # us)))))"
    by (rule Cons.IH [of ?st "p @ separator @ t" u, OF nf])
  finally show ?case by (simp del: append_all.simps add: fun_eq_iff)
qed

text \<open>
  C1 (as the code has it). Appends \<open>t1, ..., tn\<close> (\<open>n \<ge> 1\<close>) to one field whose entry
  is absent, \<^verbatim>\<open>None\<close>, a string or a list of strings leave in the field the normal
  form of the prior entry followed, for each call in order, by the separator and the
  text of the call. Every call writes a separator in front of its text, the first one
  too.
\<close>

theorem append_all_joins:
  assumes "spec_normal_form (st field) = Some p" and "ts \<noteq> []"
  shows "append_all st field ts =
           Inr (st(field \<mapsto> PyStr (p @ concat (map (\<lambda>t. separator @ t) ts))))"
  using assms by (cases ts) (simp_all only: append_all_cons list.simps)

theorem append_all_joins_witness:
  "spec_normal_form ((Map.empty :: state) ''x'') = Some '''' \<and> [''A'', ''B''] \<noteq> []
   \<and> append_all Map.empty ''x'' [''A'', ''B''] =
       Inr [''x'' \<mapsto> PyStr (separator @ ''A'' @ separator @ ''B'')]"
  using append_all_joins [of Map.empty "''x''" "''''" "[''A'', ''B'']"] by simp

text \<open>
  C1 as stated fails on the scenario of the specification: one append of \<^verbatim>\<open>"A"\<close> to
  a field absent from the empty store leaves the separator and \<^verbatim>\<open>"A"\<close>, not \<^verbatim>\<open>"A"\<close>,
  which is what joining the one text by the separator gives.
\<close>

theorem append_absent_counterexample:
  "append_all Map.empty ''x'' [''A''] = Inr [''x'' \<mapsto> PyStr (separator @ ''A'')]
   \<and> append_all Map.empty ''x'' [''A''] \<noteq> Inr [''x'' \<mapsto> PyStr (str_join separator [''A''])]"
proof -
  have run: "append_all Map.empty ''x'' [''A''] = Inr [''x'' \<mapsto> PyStr (separator @ ''A'')]"
    by (simp add: update_research_data_def state_get_def)
  have "[''x'' \<mapsto> PyStr (separator @ ''A'')] ''x'' \<noteq> [''x'' \<mapsto> PyStr ''A''] ''x''"
    by (simp add: separator_def)
  then have "[''x'' \<mapsto> PyStr (separator @ ''A'')] \<noteq> [''x'' \<mapsto> PyStr ''A'']"
    by metis
  with run show ?thesis by simp
qed

text \<open>
  C5. Append is monotone: where the prior entry has a normal form (it is absent,
  \<^verbatim>\<open>None\<close>, a string or a list of strings), the call returns and the text it stores
  begins with that normal form.
\<close>

theorem append_monotone:
  assumes "spec_normal_form (st field) = Some n"
  shows "\<exists>w. update_research_data st field t = Inr (st(field \<mapsto> PyStr w), success) \<and> prefix n w"
  using assms update_research_data_normal [of st field n t] by auto

theorem append_monotone_witness:
  "spec_normal_form ([''f'' \<mapsto> PyList [PyStr ''a'', PyStr ''b'']] ''f'') = Some (''a'' @ newline @ ''b'')
   \<and> (\<exists>w. update_research_data [''f'' \<mapsto> PyList [PyStr ''a'', PyStr ''b'']] ''f'' ''c''
            = Inr ([''f'' \<mapsto> PyStr w], success) \<and> prefix (''a'' @ newline @ ''b'') w)"
  using append_monotone [of "[''f'' \<mapsto> PyList [PyStr ''a'', PyStr ''b'']]" "''f''" "''a'' @ newline @ ''b''" "''c''"]
  by simp

section \<open>The file name of the verdict\<close>

lemma alnum_not_underscore: "is_alnum c \<Longrightarrow> \<not> is_underscore c"
  by (auto simp: is_alnum_def is_underscore_def)

lemma sub_non_alnum_simps:
  "sub_non_alnum [] = []"
  "sub_non_alnum (c # cs) = (if is_alnum c then c else CHR ''_'') # sub_non_alnum cs"
  "sub_non_alnum (xs @ ys) = sub_non_alnum xs @ sub_non_alnum ys"
  by (simp_all add: sub_non_alnum_def)

lemma dropWhile_sub_non_alnum:
  "dropWhile is_underscore (sub_non_alnum cs) = sub_non_alnum (dropWhile (\<lambda>c. \<not> is_alnum c) cs)"
proof -
  have "is_underscore \<circ> (\<lambda>c. if is_alnum c then c else CHR ''_'') = (\<lambda>c. \<not> is_alnum c)"
    by (auto simp: fun_eq_iff is_underscore_def dest: alnum_not_underscore)
  then show ?thesis by (simp add: sub_non_alnum_def dropWhile_map)
qed

lemma scan_alnum:
  "is_alnum c \<Longrightarrow> sub_underscores (sub_non_alnum (c # cs)) = c # sub_underscores (sub_non_alnum cs)"
  by (simp add: sub_non_alnum_simps alnum_not_underscore)

lemma scan_non_alnum:
  "\<not> is_alnum c \<Longrightarrow> sub_underscores (sub_non_alnum (c # cs)) =
     CHR ''_'' # sub_underscores (sub_non_alnum (dropWhile (\<lambda>c. \<not> is_alnum c) cs))"
  by (simp add: sub_non_alnum_simps dropWhile_sub_non_alnum is_underscore_def)

lemma scan_alnum_prefix:
  "list_all is_alnum cur \<Longrightarrow>
     sub_underscores (sub_non_alnum (cur @ s)) = cur @ sub_underscores (sub_non_alnum s)"
  by (induction cur) (simp_all add: scan_alnum del: sub_underscores.simps)

lemma scan_starts_clean:
  assumes "s = [] \<or> is_alnum (hd s)"
  shows "dropWhile is_underscore (sub_underscores (sub_non_alnum s)) = sub_underscores (sub_non_alnum s)"
proof (cases s)
  case Nil
  then show ?thesis by (simp add: sub_non_alnum_simps)
next
  case (Cons d ds)
  with assms have "is_alnum d" by simp
  then show ?thesis unfolding Cons by (simp add: scan_alnum alnum_not_underscore del: sub_underscores.simps)
qed

lemma lstrip_scan:
  "dropWhile is_underscore (sub_underscores (sub_non_alnum s)) =
     sub_underscores (sub_non_alnum (dropWhile (\<lambda>c. \<not> is_alnum c) s))"
proof (cases s)
  case Nil
  then show ?thesis by (simp add: sub_non_alnum_simps)
next
  case (Cons c cs)
  show ?thesis
  proof (cases "is_alnum c")
    case True
    then show ?thesis unfolding Cons
      by (simp add: scan_alnum alnum_not_underscore del: sub_underscores.simps)
  next
    case False
    let ?r = "dropWhile (\<lambda>c. \<not> is_alnum c) cs"
    have "?r = [] \<or> is_alnum (hd ?r)"
      using hd_dropWhile [of "\<lambda>c. \<not> is_alnum c" cs] by auto
    then have "dropWhile is_underscore (sub_underscores (sub_non_alnum ?r)) = sub_underscores (sub_non_alnum ?r)"
      by (rule scan_starts_clean)
    with False show ?thesis unfolding Cons
      by (simp add: scan_non_alnum is_underscore_def del: sub_underscores.simps)
  qed
qed


lemma rstrip_keep: "s \<noteq> [] \<Longrightarrow> \<not> is_underscore (last s) \<Longrightarrow> rstrip s = s"
  by (cases s rule: rev_cases) (simp_all add: rstrip_def)

lemma rstrip_append: "rstrip x \<noteq> [] \<Longrightarrow> rstrip (a @ x) = a @ rstrip x"
  by (auto simp: rstrip_def dropWhile_append)

lemma rstrip_underscore: "rstrip (a @ ''_'') = rstrip a"
  by (simp add: rstrip_def is_underscore_def)

lemma rstrip_Cons_ne: "\<not> is_underscore d \<Longrightarrow> rstrip (d # x) \<noteq> []"
  by (auto simp: rstrip_def dropWhile_append)

lemma alnum_runs_ne: "cur \<noteq> [] \<Longrightarrow> alnum_runs cur s \<noteq> []"
  by (induction s arbitrary: cur) auto

lemma alnum_runs_skip: "alnum_runs [] s = alnum_runs [] (dropWhile (\<lambda>c. \<not> is_alnum c) s)"
  by (induction s) auto

lemma str_join_Cons: "ws \<noteq> [] \<Longrightarrow> str_join sep (w # ws) = w @ sep @ str_join sep ws"
  by (cases ws) simp_all

lemma rstrip_scan:
  assumes "cur \<noteq> []" and "list_all is_alnum cur"
  shows "rstrip (sub_underscores (sub_non_alnum (cur @ s))) = str_join ''_'' (alnum_runs cur s)"
  using assms
proof (induction "length s" arbitrary: s cur rule: less_induct)
  case less
  have last_cur: "\<not> is_underscore (last cur)"
    using less.prems by (cases cur rule: rev_cases) (auto dest: alnum_not_underscore)
  show ?case
  proof (cases s)
    case Nil
    have "sub_underscores (sub_non_alnum (cur @ [])) = cur"
      using scan_alnum_prefix [OF less.prems(2), of "[]"] by (simp add: sub_non_alnum_simps)
    then show ?thesis using less.prems last_cur Nil by (simp add: rstrip_keep)
  next
    case (Cons c cs)
    show ?thesis
    proof (cases "is_alnum c")
      case True
      have "rstrip (sub_underscores (sub_non_alnum ((cur @ [c]) @ cs))) = str_join ''_'' (alnum_runs (cur @ [c]) cs)"
        using less.prems True Cons by (intro less.hyps) simp_all
      then show ?thesis using True Cons by simp
    next
      case False
      let ?r = "dropWhile (\<lambda>c. \<not> is_alnum c) cs"
      have scan: "sub_underscores (sub_non_alnum (cur @ s)) = cur @ ''_'' @ sub_underscores (sub_non_alnum ?r)"
        using False scan_alnum_prefix [OF less.prems(2), of s] unfolding Cons
        by (simp add: scan_non_alnum del: sub_underscores.simps)
      have runs: "alnum_runs cur s = cur # alnum_runs [] ?r"
        using False less.prems(1) alnum_runs_skip [of cs] unfolding Cons by simp
      show ?thesis
      proof (cases ?r)
        case Nil
        have "rstrip (cur @ ''_'') = cur"
          using rstrip_underscore [of cur] rstrip_keep [OF less.prems(1) last_cur] by simp
        then show ?thesis unfolding scan runs Nil by (simp add: sub_non_alnum_simps)
      next
        case (Cons d ds)
        have d: "is_alnum d"
          using hd_dropWhile [of "\<lambda>c. \<not> is_alnum c" cs] Cons by auto
        have len: "length ds < length s"
          using length_dropWhile_le [of "\<lambda>c. \<not> is_alnum c" cs] Cons \<open>s = c # cs\<close> by simp
        have ih: "rstrip (sub_underscores (sub_non_alnum ([d] @ ds))) = str_join ''_'' (alnum_runs [d] ds)"
          using d by (intro less.hyps [OF len]) simp_all
        have ne: "rstrip (sub_underscores (sub_non_alnum (d # ds))) \<noteq> []"
          using d by (simp add: scan_alnum rstrip_Cons_ne alnum_not_underscore del: sub_underscores.simps)
        have "rstrip (sub_underscores (sub_non_alnum (cur @ s))) =
                (cur @ ''_'') @ rstrip (sub_underscores (sub_non_alnum (d # ds)))"
          using rstrip_append [OF ne, of "cur @ ''_''"] scan Cons by simp
        also have "\<dots> = cur @ ''_'' @ str_join ''_'' (alnum_runs [d] ds)"
          using ih by simp
        also have "\<dots> = str_join ''_'' (cur # alnum_runs [d] ds)"
          by (simp add: str_join_Cons alnum_runs_ne)
        also have "\<dots> = str_join ''_'' (alnum_runs cur s)"
          using runs Cons d by simp
        finally show ?thesis .
      qed
    qed
  qed
qed

lemma clean_name_spec: "clean_name topic = spec_clean_name topic"
proof -
  let ?r = "dropWhile (\<lambda>c. \<not> is_alnum c) topic"
  have c: "clean_name topic = rstrip (sub_underscores (sub_non_alnum ?r))"
    by (simp add: clean_name_def strip_underscores_def rstrip_def lstrip_scan)
  have s: "spec_clean_name topic = str_join ''_'' (alnum_runs [] ?r)"
    using alnum_runs_skip [of topic] by (simp add: spec_clean_name_def)
  show ?thesis
  proof (cases ?r)
    case Nil
    show ?thesis unfolding c s Nil by (simp add: sub_non_alnum_simps rstrip_def)
  next
    case (Cons d ds)
    have d: "is_alnum d"
      using hd_dropWhile [of "\<lambda>c. \<not> is_alnum c" topic] Cons by auto
    have "rstrip (sub_underscores (sub_non_alnum ([d] @ ds))) = str_join ''_'' (alnum_runs [d] ds)"
      using d by (intro rstrip_scan) simp_all
    then show ?thesis using c s Cons d by simp
  qed
qed

lemma set_sub_underscores: "set (sub_underscores s) \<subseteq> insert (CHR ''_'') (set s)"
proof (induction s rule: sub_underscores.induct)
  case 1
  then show ?case by simp
next
  case (2 c cs)
  then show ?case using set_dropWhileD [of _ is_underscore cs] by (auto split: if_splits)
qed

lemma set_strip_underscores: "set (strip_underscores s) \<subseteq> set s"
  using set_dropWhileD unfolding strip_underscores_def
  by (metis set_rev subsetI)

lemma clean_name_chars: "list_all (\<lambda>c. is_alnum c \<or> c = CHR ''_'') (clean_name topic)"
proof -
  have "set (sub_non_alnum topic) \<subseteq> {c. is_alnum c \<or> c = CHR ''_''}"
    by (auto simp: sub_non_alnum_def)
  then have "set (clean_name topic) \<subseteq> {c. is_alnum c \<or> c = CHR ''_''}"
    using set_sub_underscores [of "sub_non_alnum topic"] set_strip_underscores [of "sub_underscores (sub_non_alnum topic)"]
    unfolding clean_name_def by blast
  then show ?thesis by (auto simp: list_all_iff)
qed

lemma sub_underscores_hd:
  "s = [] \<or> \<not> is_underscore (hd s) \<Longrightarrow> \<not> prefix ''_'' (sub_underscores s)"
  by (cases s) (auto simp: is_underscore_def)

lemma sub_underscores_single: "\<not> sublist ''__'' (sub_underscores s)"
proof (induction s rule: sub_underscores.induct)
  case 1
  then show ?case by simp
next
  case (2 c cs)
  show ?case
  proof (cases "is_underscore c")
    case True
    let ?r = "dropWhile is_underscore cs"
    have "?r = [] \<or> \<not> is_underscore (hd ?r)"
      using hd_dropWhile [of is_underscore cs] by auto
    then have "\<not> prefix ''_'' (sub_underscores ?r)" by (rule sub_underscores_hd)
    with True 2 show ?thesis by (simp add: sublist_Cons_right)
  next
    case False
    with 2 show ?thesis by (simp add: sublist_Cons_right is_underscore_def)
  qed
qed

lemma sublist_strip_underscores: "sublist (strip_underscores s) s"
proof -
  have "sublist (rev (dropWhile is_underscore (rev (dropWhile is_underscore s)))) (dropWhile is_underscore s)"
    by (metis sublist_rev_left suffix_dropWhile suffix_imp_sublist)
  moreover have "sublist (dropWhile is_underscore s) s"
    by (simp add: suffix_dropWhile)
  ultimately show ?thesis unfolding strip_underscores_def
    by (rule sublist_order.order.trans)
qed

lemma clean_name_single: "\<not> sublist ''__'' (clean_name topic)"
  using sub_underscores_single [of "sub_non_alnum topic"]
    sublist_strip_underscores [of "sub_underscores (sub_non_alnum topic)"]
  unfolding clean_name_def by (metis sublist_order.order.trans)

lemma no_underscore_prefix: "x = [] \<or> \<not> is_underscore (hd x) \<Longrightarrow> \<not> prefix ''_'' x"
  by (cases x) (auto simp: is_underscore_def)

lemma prefix_Cons_hd: "prefix (e # es) l \<Longrightarrow> l \<noteq> [] \<and> hd l = e"
  by (auto simp: prefix_def)

lemma strip_underscores_ends:
  "\<not> prefix ''_'' (strip_underscores s) \<and> \<not> suffix ''_'' (strip_underscores s)"
proof -
  let ?l = "dropWhile is_underscore s"
  let ?m = "dropWhile is_underscore (rev ?l)"
  have m: "?m = [] \<or> \<not> is_underscore (hd ?m)"
    using hd_dropWhile [of is_underscore "rev ?l"] by auto
  have l: "?l = [] \<or> \<not> is_underscore (hd ?l)"
    using hd_dropWhile [of is_underscore s] by auto
  have "\<not> prefix ''_'' ?m"
    using m by (rule no_underscore_prefix)
  then have "\<not> suffix ''_'' (rev ?m)"
    by (simp add: suffix_to_prefix)
  moreover have "\<not> prefix ''_'' (rev ?m)"
  proof (cases "rev ?m")
    case Nil
    show ?thesis unfolding Nil by simp
  next
    case (Cons e es)
    have "suffix ?m (rev ?l)" by (rule suffix_dropWhile)
    then have "prefix (rev ?m) ?l" by (simp add: suffix_to_prefix)
    then have "prefix (e # es) ?l" unfolding Cons .
    then have "?l \<noteq> [] \<and> hd ?l = e" by (rule prefix_Cons_hd)
    then have "\<not> is_underscore e" using l by blast
    then show ?thesis unfolding Cons by (simp add: is_underscore_def)
  qed
  ultimately show ?thesis by (simp add: strip_underscores_def)
qed

lemma path_join_court_records:
  assumes "list_all (\<lambda>c. is_alnum c \<or> c = CHR ''_'') n"
  shows "path_join ''court_records'' (n @ ''.txt'') = ''court_records/'' @ n @ ''.txt''"
proof -
  have "hd (n @ ''.txt'') \<noteq> CHR ''/''"
    using assms by (cases n) (auto simp: is_alnum_def)
  then show ?thesis by (simp add: path_join_def)
qed

text \<open>
  What the call does once the topic is known to be the string \<open>topic\<close>: the path is
  fixed by the topic alone, and the call fails only on a name beyond the limit.
\<close>

lemma write_verdict_file_topic:
  assumes "read_topic st = Inr (PyStr topic)"
  shows "write_verdict_file name_max st fs content =
     (if length (clean_name topic @ ''.txt'') \<le> name_max
      then Inr (fs(''court_records/'' @ clean_name topic @ ''.txt'' \<mapsto> content),
                [(''status'', ''success''),
                 (''file_path'', ''court_records/'' @ clean_name topic @ ''.txt'')])
      else Inl OSError)"
  using assms path_join_court_records [OF clean_name_chars, of topic]
  by (simp add: write_verdict_file_def Let_def)

lemma read_topic_str: "st ''PROMPT'' = Some (PyStr topic) \<Longrightarrow> read_topic st = Inr (PyStr topic)"
  by (simp add: read_topic_def state_get_def)

lemma read_topic_absent: "st ''PROMPT'' = None \<Longrightarrow> read_topic st = Inr (PyStr ''unknown_subject'')"
  by (simp add: read_topic_def state_get_def)

lemma read_topic_list:
  "st ''PROMPT'' = Some (PyList xs) \<Longrightarrow> xs \<noteq> [] \<Longrightarrow> read_topic st = Inr (last xs)"
  by (simp add: read_topic_def state_get_def)

lemma clean_name_unknown_subject: "clean_name ''unknown_subject'' = ''unknown_subject''"
  by (simp add: clean_name_def sub_non_alnum_def strip_underscores_def is_alnum_def is_underscore_def)

text \<open>A topic with runs of blanks, underscores and punctuation, evaluated.\<close>

lemma clean_name_example: "clean_name ''  __Genghis  Khan (1162)!'' = ''Genghis_Khan_1162''"
  by (simp add: clean_name_def sub_non_alnum_def strip_underscores_def is_alnum_def is_underscore_def)

text \<open>
  C7. For every topic the file name is the maximal runs of alphanumeric characters of
  the topic joined by single underscores: each maximal run of other characters
  between two of them has become one underscore, and those at the ends are gone. The
  name holds only ASCII letters, digits and underscores, no two underscores are
  adjacent, none stands at either end. In every state whose \<^verbatim>\<open>PROMPT\<close> is the topic,
  whatever its other fields and whatever files exist, the call writes the content to
  \<^verbatim>\<open>court_records/<name>.txt\<close>, leaves every other file as it was and returns that
  path, unless the name with its extension is longer than the file system allows:
  then it raises \<^verbatim>\<open>OSError\<close> and writes nothing.
\<close>

theorem verdict_file_name:
  "clean_name topic = spec_clean_name topic
   \<and> list_all (\<lambda>c. is_alnum c \<or> c = CHR ''_'') (clean_name topic)
   \<and> \<not> sublist ''__'' (clean_name topic)
   \<and> \<not> prefix ''_'' (clean_name topic) \<and> \<not> suffix ''_'' (clean_name topic)
   \<and> (st ''PROMPT'' = Some (PyStr topic) \<longrightarrow>
        write_verdict_file name_max st fs content =
          (if length (clean_name topic @ ''.txt'') \<le> name_max
           then Inr (fs(''court_records/'' @ clean_name topic @ ''.txt'' \<mapsto> content),
                     [(''status'', ''success''),
                      (''file_path'', ''court_records/'' @ clean_name topic @ ''.txt'')])
           else Inl OSError))"
proof -
  have name: "clean_name topic = spec_clean_name topic"
    by (rule clean_name_spec)
  have chars: "list_all (\<lambda>c. is_alnum c \<or> c = CHR ''_'') (clean_name topic)"
    by (rule clean_name_chars)
  have single: "\<not> sublist ''__'' (clean_name topic)"
    by (rule clean_name_single)
  have ends: "\<not> prefix ''_'' (clean_name topic) \<and> \<not> suffix ''_'' (clean_name topic)"
    using strip_underscores_ends [of "sub_underscores (sub_non_alnum topic)"]
    by (simp add: clean_name_def)
  have written: "write_verdict_file name_max st fs content =
          (if length (clean_name topic @ ''.txt'') \<le> name_max
           then Inr (fs(''court_records/'' @ clean_name topic @ ''.txt'' \<mapsto> content),
                     [(''status'', ''success''),
                      (''file_path'', ''court_records/'' @ clean_name topic @ ''.txt'')])
           else Inl OSError)"
    if "st ''PROMPT'' = Some (PyStr topic)"
  proof -
    have "read_topic st = Inr (PyStr topic)"
      using that by (rule read_topic_str)
    then show ?thesis by (rule write_verdict_file_topic)
  qed
  from name chars single ends written show ?thesis by blast
qed

theorem verdict_file_name_witness:
  "clean_name ''  __Genghis  Khan (1162)!'' = ''Genghis_Khan_1162''
   \<and> spec_clean_name ''  __Genghis  Khan (1162)!'' = ''Genghis_Khan_1162''
   \<and> [''pos_data'' \<mapsto> PyStr ''p'', ''PROMPT'' \<mapsto> PyStr ''  __Genghis  Khan (1162)!''] ''PROMPT''
       = Some (PyStr ''  __Genghis  Khan (1162)!'')
   \<and> write_verdict_file 255
        [''pos_data'' \<mapsto> PyStr ''p'', ''PROMPT'' \<mapsto> PyStr ''  __Genghis  Khan (1162)!'']
        [''court_records/old.txt'' \<mapsto> ''kept''] ''guilty'' =
       Inr ([''court_records/old.txt'' \<mapsto> ''kept'',
             ''court_records/Genghis_Khan_1162.txt'' \<mapsto> ''guilty''],
            [(''status'', ''success''), (''file_path'', ''court_records/Genghis_Khan_1162.txt'')])
   \<and> write_verdict_file 20
        [''pos_data'' \<mapsto> PyStr ''p'', ''PROMPT'' \<mapsto> PyStr ''  __Genghis  Khan (1162)!'']
        [''court_records/old.txt'' \<mapsto> ''kept''] ''guilty'' = Inl OSError"
proof -
  let ?t = "''  __Genghis  Khan (1162)!''"
  let ?st = "[''pos_data'' \<mapsto> PyStr ''p'', ''PROMPT'' \<mapsto> PyStr ?t]"
  let ?fs = "[''court_records/old.txt'' \<mapsto> ''kept'']"
  note ex = clean_name_example
  have p: "?st ''PROMPT'' = Some (PyStr ?t)" by simp
  have "clean_name ?t = spec_clean_name ?t"
    using verdict_file_name [of ?t ?st 255 ?fs "''guilty''"] by blast
  then have s: "spec_clean_name ?t = ''Genghis_Khan_1162''"
    unfolding ex by (rule sym)
  have "write_verdict_file 255 ?st ?fs ''guilty'' =
          (if length (clean_name ?t @ ''.txt'') \<le> 255
           then Inr (?fs(''court_records/'' @ clean_name ?t @ ''.txt'' \<mapsto> ''guilty''),
                     [(''status'', ''success''),
                      (''file_path'', ''court_records/'' @ clean_name ?t @ ''.txt'')])
           else Inl OSError)"
    using verdict_file_name [of ?t ?st 255 ?fs "''guilty''"] p by blast
  then have a: "write_verdict_file 255 ?st ?fs ''guilty'' =
       Inr ([''court_records/old.txt'' \<mapsto> ''kept'',
             ''court_records/Genghis_Khan_1162.txt'' \<mapsto> ''guilty''],
            [(''status'', ''success''), (''file_path'', ''court_records/Genghis_Khan_1162.txt'')])"
    unfolding ex by simp
  have "write_verdict_file 20 ?st ?fs ''guilty'' =
          (if length (clean_name ?t @ ''.txt'') \<le> 20
           then Inr (?fs(''court_records/'' @ clean_name ?t @ ''.txt'' \<mapsto> ''guilty''),
                     [(''status'', ''success''),
                      (''file_path'', ''court_records/'' @ clean_name ?t @ ''.txt'')])
           else Inl OSError)"
    using verdict_file_name [of ?t ?st 20 ?fs "''guilty''"] p by blast
  then have b: "write_verdict_file 20 ?st ?fs ''guilty'' = Inl OSError"
    unfolding ex by simp
  from ex s p a b show ?thesis by blast
qed

text \<open>
  C10. Where \<^verbatim>\<open>PROMPT\<close> is absent the label is \<^verbatim>\<open>"unknown_subject"\<close> and the file
  written is \<^verbatim>\<open>court_records/unknown_subject.txt\<close>; where it holds a list (non-empty, its
  last element a string), the label is that last element and the file written is
  \<^verbatim>\<open>court_records/<name>.txt\<close> for the name cleaned from it. In both cases the path is
  also the one returned, and the call fails only where the file name is longer than the
  file system allows (the default name with its extension has 19 characters).
\<close>

theorem write_verdict_file_label:
  "(st ''PROMPT'' = None \<longrightarrow>
      write_verdict_file name_max st fs content =
        (if 19 \<le> name_max
         then Inr (fs(''court_records/unknown_subject.txt'' \<mapsto> content),
                   [(''status'', ''success''),
                    (''file_path'', ''court_records/unknown_subject.txt'')])
         else Inl OSError))
   \<and> (st ''PROMPT'' = Some (PyList xs) \<and> xs \<noteq> [] \<and> last xs = PyStr t \<longrightarrow>
        write_verdict_file name_max st fs content =
          (if length (clean_name t @ ''.txt'') \<le> name_max
           then Inr (fs(''court_records/'' @ clean_name t @ ''.txt'' \<mapsto> content),
                     [(''status'', ''success''),
                      (''file_path'', ''court_records/'' @ clean_name t @ ''.txt'')])
           else Inl OSError))"
proof -
  have a: "write_verdict_file name_max st fs content =
        (if 19 \<le> name_max
         then Inr (fs(''court_records/unknown_subject.txt'' \<mapsto> content),
                   [(''status'', ''success''),
                    (''file_path'', ''court_records/unknown_subject.txt'')])
         else Inl OSError)"
    if "st ''PROMPT'' = None"
  proof -
    have "read_topic st = Inr (PyStr ''unknown_subject'')"
      using that by (rule read_topic_absent)
    then show ?thesis
      using write_verdict_file_topic [of st "''unknown_subject''" name_max fs content]
      by (simp add: clean_name_unknown_subject)
  qed
  have b: "write_verdict_file name_max st fs content =
          (if length (clean_name t @ ''.txt'') \<le> name_max
           then Inr (fs(''court_records/'' @ clean_name t @ ''.txt'' \<mapsto> content),
                     [(''status'', ''success''),
                      (''file_path'', ''court_records/'' @ clean_name t @ ''.txt'')])
           else Inl OSError)"
    if "st ''PROMPT'' = Some (PyList xs)" "xs \<noteq> []" "last xs = PyStr t"
  proof -
    have "read_topic st = Inr (PyStr t)"
      using that by (simp add: read_topic_list)
    then show ?thesis by (rule write_verdict_file_topic)
  qed
  from a b show ?thesis by blast
qed

text \<open>A second topic, evaluated.\<close>

lemma clean_name_julius: "clean_name ''Julius Caesar'' = ''Julius_Caesar''"
  by (simp add: clean_name_def sub_non_alnum_def strip_underscores_def is_alnum_def is_underscore_def)

theorem write_verdict_file_label_witness:
  "[''pos_data'' \<mapsto> PyStr ''p''] ''PROMPT'' = None
   \<and> write_verdict_file 255 [''pos_data'' \<mapsto> PyStr ''p''] Map.empty ''v'' =
       Inr ([''court_records/unknown_subject.txt'' \<mapsto> ''v''],
            [(''status'', ''success''), (''file_path'', ''court_records/unknown_subject.txt'')])
   \<and> [''pos_data'' \<mapsto> PyStr ''p'', ''PROMPT'' \<mapsto> PyList [PyStr ''Nero'', PyStr ''Julius Caesar'']]
        ''PROMPT'' = Some (PyList [PyStr ''Nero'', PyStr ''Julius Caesar''])
   \<and> [PyStr ''Nero'', PyStr ''Julius Caesar''] \<noteq> []
   \<and> last [PyStr ''Nero'', PyStr ''Julius Caesar''] = PyStr ''Julius Caesar''
   \<and> write_verdict_file 255
        [''pos_data'' \<mapsto> PyStr ''p'', ''PROMPT'' \<mapsto> PyList [PyStr ''Nero'', PyStr ''Julius Caesar'']]
        Map.empty ''v'' =
       Inr ([''court_records/Julius_Caesar.txt'' \<mapsto> ''v''],
            [(''status'', ''success''), (''file_path'', ''court_records/Julius_Caesar.txt'')])"
proof -
  let ?s0 = "[''pos_data'' \<mapsto> PyStr ''p'']"
  let ?xs = "[PyStr ''Nero'', PyStr ''Julius Caesar'']"
  let ?s1 = "[''pos_data'' \<mapsto> PyStr ''p'', ''PROMPT'' \<mapsto> PyList ?xs]"
  have p0: "?s0 ''PROMPT'' = None" by simp
  have p1: "?s1 ''PROMPT'' = Some (PyList ?xs)" by simp
  have ne: "?xs \<noteq> []" by simp
  have l: "last ?xs = PyStr ''Julius Caesar''" by simp
  have "write_verdict_file 255 ?s0 Map.empty ''v'' =
        (if (19::nat) \<le> 255
         then Inr ([''court_records/unknown_subject.txt'' \<mapsto> ''v''],
                   [(''status'', ''success''),
                    (''file_path'', ''court_records/unknown_subject.txt'')])
         else Inl OSError)"
    using write_verdict_file_label [of ?s0 255 Map.empty "''v''" "[]" "[]"] p0 by blast
  then have a: "write_verdict_file 255 ?s0 Map.empty ''v'' =
       Inr ([''court_records/unknown_subject.txt'' \<mapsto> ''v''],
            [(''status'', ''success''), (''file_path'', ''court_records/unknown_subject.txt'')])"
    by simp
  have "write_verdict_file 255 ?s1 Map.empty ''v'' =
          (if length (clean_name ''Julius Caesar'' @ ''.txt'') \<le> 255
           then Inr ([''court_records/'' @ clean_name ''Julius Caesar'' @ ''.txt'' \<mapsto> ''v''],
                     [(''status'', ''success''),
                      (''file_path'', ''court_records/'' @ clean_name ''Julius Caesar'' @ ''.txt'')])
           else Inl OSError)"
    using write_verdict_file_label [of ?s1 255 Map.empty "''v''" ?xs "''Julius Caesar''"] p1 ne l
    by blast
  then have b: "write_verdict_file 255 ?s1 Map.empty ''v'' =
       Inr ([''court_records/Julius_Caesar.txt'' \<mapsto> ''v''],
            [(''status'', ''success''), (''file_path'', ''court_records/Julius_Caesar.txt'')])"
    unfolding clean_name_julius by simp
  from p0 a p1 ne l b show ?thesis by blast
qed

section \<open>The shape of the workflow\<close>

text \<open>
  C8. The root is a sequential composite of three children in order: the inquiry step,
  whose tool overwrites a field of the state; the loop \<open>trial_loop\<close>, whose body is
  the parallel composite of \<open>admirer_agent\<close> and \<open>critic_agent\<close> followed by
  \<open>judge_agent\<close>, which holds the tool that ends the loop; and \<open>verdict_writer\<close>,
  whose tool writes the verdict file.
\<close>

theorem root_agent_shape:
  "root_agent =
     SequentialAgent ''historical_court_system''
       [Agent ''inquiry_agent'' [SetStateValue],
        LoopAgent ''trial_loop''
          [ParallelAgent ''investigation_team''
             [Agent ''admirer_agent'' [WikiTool, UpdateResearchData],
              Agent ''critic_agent'' [WikiTool, UpdateResearchData]],
           Agent ''judge_agent'' [UpdateResearchData, ExitLoop]] 3,
        Agent ''verdict_writer'' [WriteVerdictFile]]
   \<and> sub_agents root_agent = [inquiry_agent, trial_loop, verdict_writer]
   \<and> sub_agents trial_loop = [investigation_team, judge_agent]
   \<and> sub_agents investigation_team = [admirer_agent, critic_agent]
   \<and> tools inquiry_agent = [SetStateValue]
   \<and> ExitLoop \<in> set (tools judge_agent)
   \<and> tools verdict_writer = [WriteVerdictFile]"
  by (simp add: root_agent_def inquiry_agent_def trial_loop_def investigation_team_def
      admirer_agent_def critic_agent_def judge_agent_def verdict_writer_def)

section \<open>The bounded loop runs to its bound\<close>




end
